theory Spec2Isabelle
  imports Main "HOL-Library.Multiset"
begin

section \<open>Benchmark version utilities: data model\<close>

text \<open>
  The TypeScript module \<^verbatim>\<open>src/lib/benchmarkVersionUtils.ts\<close> works on four record
  types imported from \<^verbatim>\<open>@/types\<close>. Only the fields the functions read are kept.

  Version numbers are integers (the data model). The field \<^verbatim>\<open>benchmarkVersion\<close> of a
  run is the one number whose truthiness the code tests (\<^verbatim>\<open>r.benchmarkVersion || 1\<close>), so
  it keeps the two falsy numbers apart from the others: it is an integer or \<^verbatim>\<open>NaN\<close>, and
  it may be missing altogether.
\<close>

datatype jsnum = Num int | NaN

record BenchmarkVersion =
  version :: int
  createdAt :: string
  testCaseIds :: "string list"

record BenchmarkRun =
  run_id :: string
  run_createdAt :: string
  benchmarkVersion :: "jsnum option"

record TestCase =
  tc_id :: string
  tc_name :: string

text \<open>\<^verbatim>\<open>versions\<close> and \<^verbatim>\<open>runs\<close> may be missing: the code guards both.\<close>

record Benchmark =
  versions :: "BenchmarkVersion list option"
  runs :: "BenchmarkRun list option"

text \<open>\<^verbatim>\<open>interface VersionData\<close>: the three fields of a version and four derived ones.\<close>

record VersionData = BenchmarkVersion +
  isLatest :: bool
  added :: "string list"
  removed :: "string list"
  runCount :: nat

section \<open>The JavaScript operations the module uses\<close>

text \<open>
  Reading a property of \<^verbatim>\<open>null\<close> or \<^verbatim>\<open>undefined\<close> throws a \<^verbatim>\<open>TypeError\<close>; so does
  spreading \<^verbatim>\<open>undefined\<close>. A value that may be missing is an \<open>option\<close>, and every read
  through it goes through \<open>deref\<close>, so that a throw is a branch of the model.
\<close>

datatype error = TypeError

definition bindE :: "error + 'a \<Rightarrow> ('a \<Rightarrow> error + 'b) \<Rightarrow> error + 'b" where
  "bindE m f = (case m of Inl e \<Rightarrow> Inl e | Inr x \<Rightarrow> f x)"

definition deref :: "'a option \<Rightarrow> error + 'a" where
  "deref x = (case x of None \<Rightarrow> Inl TypeError | Some v \<Rightarrow> Inr v)"

text \<open>\<^verbatim>\<open>x?.f\<close>: \<^verbatim>\<open>undefined\<close> when \<^verbatim>\<open>x\<close> is missing, never a throw.\<close>

definition optional_chain :: "'a option \<Rightarrow> ('a \<Rightarrow> 'b option) \<Rightarrow> 'b option" where
  "optional_chain x f = (case x of None \<Rightarrow> None | Some v \<Rightarrow> f v)"

text \<open>\<^verbatim>\<open>arr[i]\<close>: \<^verbatim>\<open>undefined\<close> out of range.\<close>

definition js_index :: "'a list \<Rightarrow> nat \<Rightarrow> 'a option" where
  "js_index xs i = (if i < length xs then Some (xs ! i) else None)"

text \<open>
  \<^verbatim>\<open>x || d\<close> on an optional number: \<^verbatim>\<open>d\<close> when \<^verbatim>\<open>x\<close> is falsy, that is \<^verbatim>\<open>undefined\<close>,
  \<^verbatim>\<open>0\<close> or \<^verbatim>\<open>NaN\<close>; otherwise \<^verbatim>\<open>x\<close>. The result is never \<^verbatim>\<open>NaN\<close> when \<^verbatim>\<open>d\<close> is an
  integer.
\<close>

fun or_default :: "jsnum option \<Rightarrow> int \<Rightarrow> int" where
  "or_default None d = d"
| "or_default (Some NaN) d = d"
| "or_default (Some (Num n)) d = (if n = 0 then d else n)"

text \<open>
  \<^verbatim>\<open>Array.prototype.sort(cmp)\<close>: a stable sort (ECMAScript 2019); \<^verbatim>\<open>a\<close> is placed before
  \<^verbatim>\<open>b\<close> when \<^verbatim>\<open>cmp(a, b) < 0\<close> and equal elements keep their order. For a consistent
  comparator the result does not depend on the engine's algorithm; insertion from the
  right is the simplest stable one.
\<close>

fun insort_cmp :: "('a \<Rightarrow> 'a \<Rightarrow> int) \<Rightarrow> 'a \<Rightarrow> 'a list \<Rightarrow> 'a list" where
  "insort_cmp cmp x [] = [x]"
| "insort_cmp cmp x (y # ys) =
     (if cmp x y \<le> 0 then x # y # ys else y # insort_cmp cmp x ys)"

definition js_sort :: "('a \<Rightarrow> 'a \<Rightarrow> int) \<Rightarrow> 'a list \<Rightarrow> 'a list" where
  "js_sort cmp xs = foldr (insort_cmp cmp) xs []"

text \<open>
  A comparator that subtracts two numbers which may be \<^verbatim>\<open>NaN\<close> returns \<^verbatim>\<open>NaN\<close> when
  either is. The sort reads a \<^verbatim>\<open>NaN\<close> result as \<^verbatim>\<open>+0\<close>, so such a comparator is not
  consistent, and the order the engines produce then depends on which pairs they compare;
  the model compares as the insertion above does.
\<close>

definition js_minus :: "jsnum \<Rightarrow> jsnum \<Rightarrow> jsnum" where
  "js_minus x y = (case x of NaN \<Rightarrow> NaN | Num a \<Rightarrow> (case y of NaN \<Rightarrow> NaN | Num b \<Rightarrow> Num (a - b)))"

definition sort_order :: "jsnum \<Rightarrow> int" where
  "sort_order v = (case v of NaN \<Rightarrow> 0 | Num n \<Rightarrow> n)"

definition js_sort_num :: "('a \<Rightarrow> 'a \<Rightarrow> jsnum) \<Rightarrow> 'a list \<Rightarrow> 'a list" where
  "js_sort_num cmp xs = js_sort (\<lambda>a b. sort_order (cmp a b)) xs"

text \<open>\<^verbatim>\<open>arr.map((v, index) => ...)\<close> with a callback that may throw.\<close>

fun map_index :: "(nat \<Rightarrow> 'a \<Rightarrow> error + 'b) \<Rightarrow> nat \<Rightarrow> 'a list \<Rightarrow> error + 'b list" where
  "map_index f i [] = Inr []"
| "map_index f i (x # xs) =
     bindE (f i x) (\<lambda>y. bindE (map_index f (Suc i) xs) (\<lambda>ys. Inr (y # ys)))"

section \<open>computeVersionData\<close>

text \<open>
  The callback of \<^verbatim>\<open>.map((v, index, arr) => ...)\<close>, lines 31 to 50. \<^verbatim>\<open>prevVersion\<close> is
  \<^verbatim>\<open>arr[index + 1]\<close>; the conditional tests it, the filters read through it.
  \<^verbatim>\<open>benchmark.runs?.filter(...).length || 0\<close> is \<^verbatim>\<open>0\<close> when \<^verbatim>\<open>runs\<close> is missing.
\<close>

definition versionEntry ::
  "Benchmark \<Rightarrow> BenchmarkVersion list \<Rightarrow> nat \<Rightarrow> BenchmarkVersion \<Rightarrow> error + VersionData" where
  "versionEntry benchmark arr index v =
    (let prevVersion = js_index arr (index + 1) in
     bindE (case prevVersion of
              Some _ \<Rightarrow> bindE (deref prevVersion) (\<lambda>p.
                Inr (filter (\<lambda>i. i \<notin> set (testCaseIds p)) (testCaseIds v)))
            | None \<Rightarrow> Inr []) (\<lambda>added'.
     bindE (case prevVersion of
              Some _ \<Rightarrow> bindE (deref prevVersion) (\<lambda>p.
                Inr (filter (\<lambda>i. i \<notin> set (testCaseIds v)) (testCaseIds p)))
            | None \<Rightarrow> Inr []) (\<lambda>removed'.
     let runCount' =
       (case runs benchmark of
          None \<Rightarrow> 0
        | Some rs \<Rightarrow>
            length (filter (\<lambda>r. or_default (benchmarkVersion r) 1 = version v) rs))
     in Inr \<lparr>version = version v, createdAt = createdAt v, testCaseIds = testCaseIds v,
             isLatest = (index = 0), added = added', removed = removed',
             runCount = runCount'\<rparr>)))"

text \<open>
  Lines 25 to 51. The guard \<^verbatim>\<open>!benchmark?.versions || benchmark.versions.length === 0\<close>
  evaluates its right operand only when the left one is false.
\<close>

definition computeVersionData :: "Benchmark option \<Rightarrow> error + VersionData list" where
  "computeVersionData benchmark =
    bindE (case optional_chain benchmark versions of
             None \<Rightarrow> Inr True
           | Some _ \<Rightarrow> bindE (deref benchmark) (\<lambda>b. bindE (deref (versions b)) (\<lambda>vs.
               Inr (length vs = 0)))) (\<lambda>nothing.
    if nothing then Inr []
    else bindE (deref benchmark) (\<lambda>b. bindE (deref (versions b)) (\<lambda>vs.
      let arr = js_sort (\<lambda>a b. version b - version a) vs
      in map_index (versionEntry b arr) 0 arr)))"

section \<open>getSelectedVersionData\<close>

text \<open>Lines 58 to 65. \<^verbatim>\<open>find(...) || versionData[0]\<close>: an object is always truthy.\<close>

definition getSelectedVersionData ::
  "VersionData list \<Rightarrow> int option \<Rightarrow> error + VersionData option" where
  "getSelectedVersionData versionData selectedVersion =
    (if length versionData = 0 then Inr None
     else case selectedVersion of
       None \<Rightarrow> Inr (js_index versionData 0)
     | Some s \<Rightarrow>
         (case find (\<lambda>v. version v = s) versionData of
            Some v \<Rightarrow> Inr (Some v)
          | None \<Rightarrow> Inr (js_index versionData 0)))"

section \<open>getVersionTestCases\<close>

text \<open>Lines 72 to 80.\<close>

definition getVersionTestCases ::
  "TestCase list \<Rightarrow> VersionData option \<Rightarrow> error + TestCase list" where
  "getVersionTestCases testCases selectedVersionData =
    (case selectedVersionData of
       None \<Rightarrow> Inr []
     | Some _ \<Rightarrow> bindE (deref selectedVersionData) (\<lambda>vd.
         Inr (filter (\<lambda>tc. tc_id tc \<in> set (testCaseIds vd)) testCases)))"

section \<open>filterRunsByVersion\<close>

text \<open>
  Lines 87 to 99. \<open>getTime s\<close> stands for \<^verbatim>\<open>new Date(s).getTime()\<close>: the milliseconds
  of the timestamp \<^verbatim>\<open>s\<close>, or \<^verbatim>\<open>NaN\<close> when \<^verbatim>\<open>s\<close> does not parse. The parser belongs
  to the runtime and is a parameter here.
\<close>

datatype versionFilter = AllVersions | VersionNumber int

definition filterRunsByVersion ::
  "(string \<Rightarrow> jsnum) \<Rightarrow> BenchmarkRun list option \<Rightarrow> versionFilter \<Rightarrow>
     error + BenchmarkRun list" where
  "filterRunsByVersion getTime runs' versionFilter' =
    (case runs' of
       None \<Rightarrow> Inr []
     | Some _ \<Rightarrow> bindE (deref runs') (\<lambda>rs.
         let sorted' = js_sort_num
               (\<lambda>a b. js_minus (getTime (run_createdAt b)) (getTime (run_createdAt a))) rs
         in case versionFilter' of
              AllVersions \<Rightarrow> Inr sorted'
            | VersionNumber n \<Rightarrow>
                Inr (filter (\<lambda>run. or_default (benchmarkVersion run) 1 = n) sorted')))"

section \<open>The arrays in memory\<close>

text \<open>
  \<^verbatim>\<open>sort\<close> reorders the array it is called on, and the caller of \<open>computeVersionData\<close>
  and \<open>filterRunsByVersion\<close> keeps a reference to the array it passes. Whether the
  caller's array changes depends on which array is sorted, so this section places the
  arrays in a store: an address is a position in the list of the arrays allocated so far,
  and an object refers to its arrays by address. The elements stay values: the code writes
  to no field of a version or a run.
\<close>

type_synonym addr = nat

record heap =
  versionArrays :: "BenchmarkVersion list list"
  runArrays :: "BenchmarkRun list list"

record BenchmarkRef =
  versionsRef :: "addr option"
  runsRef :: "addr option"

text \<open>\<^verbatim>\<open>xs.slice()\<close> and \<^verbatim>\<open>[...xs]\<close>: a new array with the elements of \<^verbatim>\<open>xs\<close>.\<close>

definition array_copy :: "addr \<Rightarrow> 'a list list \<Rightarrow> addr \<times> 'a list list" where
  "array_copy a h = (length h, h @ [h ! a])"

text \<open>\<^verbatim>\<open>xs.sort(cmp)\<close>: sorts \<^verbatim>\<open>xs\<close> in place and returns \<^verbatim>\<open>xs\<close> itself.\<close>

definition array_sort :: "('a \<Rightarrow> 'a \<Rightarrow> int) \<Rightarrow> addr \<Rightarrow> 'a list list \<Rightarrow> addr \<times> 'a list list" where
  "array_sort cmp a h = (a, h[a := js_sort cmp (h ! a)])"

text \<open>The benchmark a reference stands for: its arrays read from the store.\<close>

definition load :: "heap \<Rightarrow> BenchmarkRef \<Rightarrow> Benchmark" where
  "load h b =
    \<lparr>versions = map_option (\<lambda>a. versionArrays h ! a) (versionsRef b),
     runs = map_option (\<lambda>a. runArrays h ! a) (runsRef b)\<rparr>"

text \<open>
  \<open>computeVersionData\<close> on the store, lines 26 to 50: \<^verbatim>\<open>.slice()\<close> allocates the copy,
  \<^verbatim>\<open>.sort\<close> sorts the copy, \<^verbatim>\<open>.map\<close> builds the result, a new array whose elements
  are returned. The runs are only read.
\<close>

definition computeVersionData_heap ::
  "BenchmarkRef option \<Rightarrow> heap \<Rightarrow> (error + VersionData list) \<times> heap" where
  "computeVersionData_heap benchmark h =
    (case optional_chain benchmark versionsRef of
       None \<Rightarrow> (Inr [], h)
     | Some a \<Rightarrow>
         if length (versionArrays h ! a) = 0 then (Inr [], h)
         else
           let (c, h1) = array_copy a (versionArrays h);
               (s, h2) = array_sort (\<lambda>a b. version b - version a) c h1;
               arr = h2 ! s
           in (case benchmark of
                 None \<Rightarrow> (Inl TypeError, h\<lparr>versionArrays := h2\<rparr>)
               | Some b \<Rightarrow>
                   (map_index (versionEntry (load h b) arr) 0 arr,
                    h\<lparr>versionArrays := h2\<rparr>)))"

text \<open>
  \<open>filterRunsByVersion\<close> on the store, lines 91 to 98: \<^verbatim>\<open>[...runs]\<close> allocates the copy,
  \<^verbatim>\<open>.sort\<close> sorts the copy, \<^verbatim>\<open>.filter\<close> builds a new array.
\<close>

definition filterRunsByVersion_heap ::
  "(string \<Rightarrow> jsnum) \<Rightarrow> addr option \<Rightarrow> versionFilter \<Rightarrow> heap \<Rightarrow>
     (error + BenchmarkRun list) \<times> heap" where
  "filterRunsByVersion_heap getTime runs' versionFilter' h =
    (case runs' of
       None \<Rightarrow> (Inr [], h)
     | Some a \<Rightarrow>
         let (c, h1) = array_copy a (runArrays h);
             (s, h2) = array_sort
               (\<lambda>a b. sort_order
                  (js_minus (getTime (run_createdAt b)) (getTime (run_createdAt a)))) c h1;
             sorted' = h2 ! s
         in (case versionFilter' of
               AllVersions \<Rightarrow> Inr sorted'
             | VersionNumber n \<Rightarrow>
                 Inr (filter (\<lambda>run. or_default (benchmarkVersion run) 1 = n) sorted'),
             h\<lparr>runArrays := h2\<rparr>))"

section \<open>The cancellation hook\<close>

text \<open>
  \<^verbatim>\<open>src/hooks/useBenchmarkCancellation.ts\<close>. The hook's state is the one cell
  \<^verbatim>\<open>cancellingRunId\<close>. What the hook does to the outside is recorded as a trace:
  the state writes, the remote call, the callback and the console.
\<close>

datatype event =
  SetCancellingRunId "string option"
| CancelBenchmarkRun string string
| OnSuccess
| ConsoleError string

record hook =
  cancellingRunId :: "string option"
  trace :: "event list"

text \<open>
  An awaited promise is fulfilled, is rejected with an error, or never settles. A
  statement completes normally, throws, or never completes.
\<close>

datatype settled = Fulfilled | Rejected string | Pending

datatype completion = Normal | Throw string | Hang

type_synonym stmt = "hook \<Rightarrow> completion \<times> hook"

definition emit :: "event \<Rightarrow> hook \<Rightarrow> hook" where
  "emit e s = s\<lparr>trace := trace s @ [e]\<rparr>"

definition await :: "settled \<Rightarrow> completion" where
  "await p = (case p of Fulfilled \<Rightarrow> Normal | Rejected err \<Rightarrow> Throw err | Pending \<Rightarrow> Hang)"

text \<open>\<^verbatim>\<open>a; b\<close>: \<^verbatim>\<open>b\<close> runs only when \<^verbatim>\<open>a\<close> completes normally.\<close>

definition seq :: "stmt \<Rightarrow> stmt \<Rightarrow> stmt" where
  "seq a b s = (case a s of (Normal, s') \<Rightarrow> b s' | (r, s') \<Rightarrow> (r, s'))"

text \<open>
  \<^verbatim>\<open>try { body } catch (error) { handler } finally { fin }\<close>: the handler runs when the
  body throws; \<^verbatim>\<open>fin\<close> runs whenever control leaves the body or the handler, and the
  statement completes as they did unless \<^verbatim>\<open>fin\<close> itself completes abruptly.
\<close>

definition try_catch_finally :: "stmt \<Rightarrow> (string \<Rightarrow> stmt) \<Rightarrow> stmt \<Rightarrow> stmt" where
  "try_catch_finally body handler fin s =
    (case body s of
       (Hang, s1) \<Rightarrow> (Hang, s1)
     | (r1, s1) \<Rightarrow>
         (case (case r1 of Throw err \<Rightarrow> handler err s1 | _ \<Rightarrow> (r1, s1)) of
            (Hang, s2) \<Rightarrow> (Hang, s2)
          | (r2, s2) \<Rightarrow>
              (case fin s2 of (Normal, s3) \<Rightarrow> (r2, s3) | (r3, s3) \<Rightarrow> (r3, s3))))"

definition setCancellingRunId :: "string option \<Rightarrow> stmt" where
  "setCancellingRunId v s = (Normal, emit (SetCancellingRunId v) (s\<lparr>cancellingRunId := v\<rparr>))"

text \<open>Line 26: \<^verbatim>\<open>cancellingRunId === runId\<close>.\<close>

definition isCancelling :: "hook \<Rightarrow> string \<Rightarrow> bool" where
  "isCancelling s runId = (cancellingRunId s = Some runId)"

text \<open>
  Lines 33 to 52. \<open>cancelBenchmarkRun\<close> is the remote call, given by how its promise
  settles; \<open>onSuccess\<close> is the optional callback, given the same way.
\<close>

definition handleCancelRun ::
  "(string \<Rightarrow> string \<Rightarrow> settled) \<Rightarrow> settled option \<Rightarrow> string \<Rightarrow> string \<Rightarrow> stmt" where
  "handleCancelRun cancelBenchmarkRun onSuccess benchmarkId runId =
    seq (setCancellingRunId (Some runId))
      (try_catch_finally
        (seq (\<lambda>s. (await (cancelBenchmarkRun benchmarkId runId),
                     emit (CancelBenchmarkRun benchmarkId runId) s))
             (\<lambda>s. case onSuccess of
                     None \<Rightarrow> (Normal, s)
                   | Some cb \<Rightarrow> (await cb, emit OnSuccess s)))
        (\<lambda>err s. (Normal, emit (ConsoleError err) s))
        (setCancellingRunId None))"

section \<open>Example data\<close>

text \<open>The spec's two examples, with the timestamps of the repository's tests.\<close>

definition example_versions :: "BenchmarkVersion list" where
  "example_versions =
    [\<lparr>version = 1, createdAt = ''T'', testCaseIds = [''a'']\<rparr>,
     \<lparr>version = 3, createdAt = ''TTT'', testCaseIds = [''a'', ''b'', ''c'']\<rparr>,
     \<lparr>version = 2, createdAt = ''TT'', testCaseIds = [''a'', ''b'']\<rparr>]"

definition example_runs :: "BenchmarkRun list" where
  "example_runs =
    [\<lparr>run_id = ''r1'', run_createdAt = ''2026-01-01T01:00:00Z'',
      benchmarkVersion = Some (Num 1)\<rparr>,
     \<lparr>run_id = ''r2'', run_createdAt = ''2026-01-02T01:00:00Z'',
      benchmarkVersion = Some (Num 2)\<rparr>,
     \<lparr>run_id = ''r3'', run_createdAt = ''2026-01-03T01:00:00Z'',
      benchmarkVersion = None\<rparr>]"

definition example_benchmark :: Benchmark where
  "example_benchmark = \<lparr>versions = Some example_versions, runs = Some example_runs\<rparr>"

text \<open>
  What \<^verbatim>\<open>new Date(s).getTime()\<close> gives on the strings the examples use: the milliseconds
  since 1970 of the three timestamps. No other string of the examples parses.
\<close>

definition example_getTime :: "string \<Rightarrow> jsnum" where
  "example_getTime s =
    (if s = ''2026-01-01T01:00:00Z'' then Num 1767229200000
     else if s = ''2026-01-02T01:00:00Z'' then Num 1767315600000
     else if s = ''2026-01-03T01:00:00Z'' then Num 1767402000000
     else NaN)"

definition example_output :: "VersionData list" where
  "example_output =
    [\<lparr>version = 3, createdAt = ''TTT'', testCaseIds = [''a'', ''b'', ''c''],
      isLatest = True, added = [''c''], removed = [], runCount = 0\<rparr>,
     \<lparr>version = 2, createdAt = ''TT'', testCaseIds = [''a'', ''b''],
      isLatest = False, added = [''b''], removed = [], runCount = 1\<rparr>,
     \<lparr>version = 1, createdAt = ''T'', testCaseIds = [''a''],
      isLatest = False, added = [], removed = [], runCount = 2\<rparr>]"

text \<open>A run whose \<^verbatim>\<open>benchmarkVersion\<close> is present and \<^verbatim>\<open>0\<close>.\<close>

definition zero_run :: BenchmarkRun where
  "zero_run =
    \<lparr>run_id = ''r0'', run_createdAt = ''2026-01-01T01:00:00Z'',
     benchmarkVersion = Some (Num 0)\<rparr>"

text \<open>A run whose \<^verbatim>\<open>benchmarkVersion\<close> is present and \<^verbatim>\<open>NaN\<close>.\<close>

definition nan_run :: BenchmarkRun where
  "nan_run =
    \<lparr>run_id = ''rn'', run_createdAt = ''2026-01-02T01:00:00Z'', benchmarkVersion = Some NaN\<rparr>"

text \<open>What \<open>computeVersionData\<close> returns for the example with that run added.\<close>

definition nan_output :: "VersionData list" where
  "nan_output =
    [\<lparr>version = 3, createdAt = ''TTT'', testCaseIds = [''a'', ''b'', ''c''],
      isLatest = True, added = [''c''], removed = [], runCount = 0\<rparr>,
     \<lparr>version = 2, createdAt = ''TT'', testCaseIds = [''a'', ''b''],
      isLatest = False, added = [''b''], removed = [], runCount = 1\<rparr>,
     \<lparr>version = 1, createdAt = ''T'', testCaseIds = [''a''],
      isLatest = False, added = [], removed = [], runCount = 3\<rparr>]"

text \<open>Three runs; the \<^verbatim>\<open>createdAt\<close> of the second does not parse.\<close>

definition undated_runs :: "BenchmarkRun list" where
  "undated_runs =
    [\<lparr>run_id = ''A'', run_createdAt = ''2026-01-01T01:00:00Z'',
      benchmarkVersion = Some (Num 1)\<rparr>,
     \<lparr>run_id = ''B'', run_createdAt = ''not-a-date'', benchmarkVersion = Some (Num 1)\<rparr>,
     \<lparr>run_id = ''C'', run_createdAt = ''2026-01-03T01:00:00Z'',
      benchmarkVersion = Some (Num 1)\<rparr>]"

text \<open>
  The effective version as the specification words it: \<^verbatim>\<open>benchmarkVersion\<close> if present,
  else \<^verbatim>\<open>1\<close>; and the run count it gives.
\<close>

definition spec_effectiveVersion :: "BenchmarkRun \<Rightarrow> jsnum" where
  "spec_effectiveVersion r = (case benchmarkVersion r of None \<Rightarrow> Num 1 | Some n \<Rightarrow> n)"

definition spec_runCount :: "BenchmarkRun list option \<Rightarrow> int \<Rightarrow> nat" where
  "spec_runCount rs v =
    (case rs of
       None \<Rightarrow> 0
     | Some rs' \<Rightarrow> length (filter (\<lambda>r. spec_effectiveVersion r = Num v) rs'))"

text \<open>Test cases for the examples; the second one belongs to no version.\<close>

definition example_cases :: "TestCase list" where
  "example_cases =
    [\<lparr>tc_id = ''b'', tc_name = ''second''\<rparr>,
     \<lparr>tc_id = ''x'', tc_name = ''stray''\<rparr>,
     \<lparr>tc_id = ''a'', tc_name = ''first''\<rparr>]"

text \<open>The sorted copy of line 30, for the statements below.\<close>

abbreviation newestFirst :: "BenchmarkVersion list \<Rightarrow> BenchmarkVersion list" where
  "newestFirst vs \<equiv> js_sort (\<lambda>a b. version b - version a) vs"

text \<open>The versions of a benchmark, none when they are missing.\<close>

abbreviation versionsOf :: "Benchmark \<Rightarrow> BenchmarkVersion list" where
  "versionsOf b \<equiv> (case versions b of None \<Rightarrow> [] | Some vs \<Rightarrow> vs)"

text \<open>A benchmark with version 1 alone and the run \<open>zero_run\<close>.\<close>

definition zero_benchmark :: Benchmark where
  "zero_benchmark =
    \<lparr>versions = Some [\<lparr>version = 1, createdAt = ''T'', testCaseIds = [''a'']\<rparr>],
     runs = Some [zero_run]\<rparr>"

section \<open>Basic facts\<close>

lemma bindE_Inr [simp]: "bindE (Inr x) f = f x"
  by (simp add: bindE_def)

lemma bindE_Inl [simp]: "bindE (Inl e) f = Inl e"
  by (simp add: bindE_def)

lemma bindE_eq_Inr: "bindE m f = Inr y \<longleftrightarrow> (\<exists>x. m = Inr x \<and> f x = Inr y)"
  by (cases m) simp_all

lemma deref_Some [simp]: "deref (Some v) = Inr v"
  by (simp add: deref_def)

lemma deref_None [simp]: "deref None = Inl TypeError"
  by (simp add: deref_def)

subsection \<open>The indexed map\<close>

lemma map_index_total:
  "(\<And>i x. x \<in> set xs \<Longrightarrow> \<exists>y. f i x = Inr y) \<Longrightarrow> \<exists>ys. map_index f k xs = Inr ys"
proof (induction xs arbitrary: k)
  case Nil
  then show ?case by simp
next
  case (Cons x xs)
  obtain y where y: "f k x = Inr y"
    using Cons.prems [of x k] by auto
  obtain ys where "map_index f (Suc k) xs = Inr ys"
    using Cons.IH [of "Suc k"] Cons.prems by auto
  with y show ?case by simp
qed

lemma map_index_length: "map_index f k xs = Inr ys \<Longrightarrow> length ys = length xs"
  by (induction xs arbitrary: k ys) (auto simp: bindE_eq_Inr)

lemma map_index_nth:
  "map_index f k xs = Inr ys \<Longrightarrow> j < length xs \<Longrightarrow> f (k + j) (xs ! j) = Inr (ys ! j)"
proof (induction xs arbitrary: k ys j)
  case Nil
  then show ?case by simp
next
  case (Cons x xs)
  from Cons.prems(1) obtain y ys' where
    y: "f k x = Inr y" and ys': "map_index f (Suc k) xs = Inr ys'" and eq: "ys = y # ys'"
    by (auto simp: bindE_eq_Inr)
  show ?case
  proof (cases j)
    case 0
    with y eq show ?thesis by simp
  next
    case (Suc j')
    with Cons.prems(2) have "j' < length xs" by simp
    from Cons.IH [OF ys' this] Suc eq show ?thesis by simp
  qed
qed

subsection \<open>The sort\<close>

lemma mset_insort_cmp: "mset (insort_cmp cmp x ys) = add_mset x (mset ys)"
  by (induction ys) auto

lemma mset_js_sort [simp]: "mset (js_sort cmp xs) = mset xs"
  unfolding js_sort_def by (induction xs) (simp_all add: mset_insort_cmp)

lemma set_js_sort [simp]: "set (js_sort cmp xs) = set xs"
  using mset_js_sort [of cmp xs] by (metis set_mset_mset)

lemma length_js_sort [simp]: "length (js_sort cmp xs) = length xs"
  using mset_js_sort [of cmp xs] by (metis size_mset)

lemma js_sort_Nil [simp]: "js_sort cmp [] = []"
  by (simp add: js_sort_def)

text \<open>
  With the comparator \<^verbatim>\<open>(a, b) => key(b) - key(a)\<close> the sort is the library's stable sort
  on the negated key.
\<close>

lemma insort_cmp_key:
  "insort_cmp (\<lambda>a b. key b - key a) x xs = insort_key (\<lambda>v. - key v) x xs"
  for key :: "'a \<Rightarrow> int"
  by (induction xs) auto

lemma js_sort_key:
  "js_sort (\<lambda>a b. key b - key a) xs = sort_key (\<lambda>v. - key v) xs"
  for key :: "'a \<Rightarrow> int"
  unfolding js_sort_def sort_key_def by (simp add: insort_cmp_key [abs_def])

lemma js_sort_descending:
  "sorted_wrt (\<lambda>a b. key b \<le> key a) (js_sort (\<lambda>a b. key b - key a) xs)"
  for key :: "'a \<Rightarrow> int"
proof -
  have "sorted (map (\<lambda>v. - key v) (sort_key (\<lambda>v. - key v) xs))"
    by (rule sorted_sort_key)
  then show ?thesis
    by (simp add: js_sort_key sorted_map)
qed

text \<open>Only the comparisons between elements of the list matter.\<close>

lemma insort_cmp_cong:
  "(\<And>y. y \<in> set ys \<Longrightarrow> cmp x y = cmp' x y) \<Longrightarrow> insort_cmp cmp x ys = insort_cmp cmp' x ys"
  by (induction ys) auto

lemma js_sort_cong:
  assumes "\<And>x y. x \<in> set xs \<Longrightarrow> y \<in> set xs \<Longrightarrow> cmp x y = cmp' x y"
  shows "js_sort cmp xs = js_sort cmp' xs"
  using assms
proof (induction xs)
  case Nil
  then show ?case by simp
next
  case (Cons x xs)
  then have IH: "js_sort cmp xs = js_sort cmp' xs"
    by simp
  have "insort_cmp cmp x (js_sort cmp' xs) = insort_cmp cmp' x (js_sort cmp' xs)"
    using Cons.prems by (intro insort_cmp_cong) simp
  with IH show ?case
    by (simp add: js_sort_def)
qed

lemma mset_js_sort_num [simp]: "mset (js_sort_num cmp xs) = mset xs"
  by (simp add: js_sort_num_def)

lemma set_js_sort_num [simp]: "set (js_sort_num cmp xs) = set xs"
  by (simp add: js_sort_num_def)

lemma js_sort_num_Nil [simp]: "js_sort_num cmp [] = []"
  by (simp add: js_sort_num_def)

text \<open>Where every key is a number, the sort by \<^verbatim>\<open>key(b) - key(a)\<close> is descending.\<close>

lemma js_sort_num_descending:
  assumes "\<forall>x \<in> set xs. key x \<noteq> NaN"
  shows "sorted_wrt (\<lambda>a b. \<exists>s t. key a = Num s \<and> key b = Num t \<and> t \<le> s)
    (js_sort_num (\<lambda>a b. js_minus (key b) (key a)) xs)"
proof -
  let ?k = "\<lambda>x. sort_order (key x)"
  have num: "\<exists>s. key x = Num s \<and> ?k x = s" if "x \<in> set xs" for x
    using assms that by (cases "key x") (simp_all add: sort_order_def)
  have "sort_order (js_minus (key y) (key x)) = ?k y - ?k x"
    if "x \<in> set xs" "y \<in> set xs" for x y
  proof -
    from num [OF that(1)] obtain s where s: "key x = Num s" by blast
    from num [OF that(2)] obtain t where t: "key y = Num t" by blast
    show ?thesis
      by (simp add: s t js_minus_def sort_order_def)
  qed
  then have "js_sort_num (\<lambda>a b. js_minus (key b) (key a)) xs = js_sort (\<lambda>a b. ?k b - ?k a) xs"
    unfolding js_sort_num_def by (intro js_sort_cong) simp
  moreover have "sorted_wrt (\<lambda>a b. ?k b \<le> ?k a) (js_sort (\<lambda>a b. ?k b - ?k a) xs)"
    by (rule js_sort_descending)
  then have "sorted_wrt (\<lambda>a b. \<exists>s t. key a = Num s \<and> key b = Num t \<and> t \<le> s)
      (js_sort (\<lambda>a b. ?k b - ?k a) xs)"
  proof (rule sorted_wrt_mono_rel [rotated])
    fix a b
    assume a: "a \<in> set (js_sort (\<lambda>a b. ?k b - ?k a) xs)"
      and b: "b \<in> set (js_sort (\<lambda>a b. ?k b - ?k a) xs)"
      and le: "?k b \<le> ?k a"
    from a num [of a] obtain s where s: "key a = Num s" "?k a = s" by auto
    from b num [of b] obtain t where t: "key b = Num t" "?k b = t" by auto
    from le s(2) t(2) have "t \<le> s" by simp
    with s(1) t(1) show "\<exists>s t. key a = Num s \<and> key b = Num t \<and> t \<le> s"
      by blast
  qed
  ultimately show ?thesis by simp
qed

section \<open>Version selection\<close>

text \<open>
  C3. \<open>getSelectedVersionData\<close> returns nothing on an empty list whatever the selection;
  on a non-empty list it returns the first element when no version is selected, the first
  element whose version is the selected one when there is one, and the first element of
  the list when there is none. It never fails.
\<close>

theorem getSelectedVersionData_resolves:
  "getSelectedVersionData [] s = Inr None \<and>
   getSelectedVersionData (x # xs) None = Inr (Some x) \<and>
   (\<forall>i < length (x # xs).
      version ((x # xs) ! i) = v \<and> (\<forall>j < i. version ((x # xs) ! j) \<noteq> v) \<longrightarrow>
      getSelectedVersionData (x # xs) (Some v) = Inr (Some ((x # xs) ! i))) \<and>
   ((\<forall>y \<in> set (x # xs). version y \<noteq> v) \<longrightarrow>
      getSelectedVersionData (x # xs) (Some v) = Inr (Some x))"
proof -
  have empty: "getSelectedVersionData [] s = Inr None"
    by (simp add: getSelectedVersionData_def)
  have latest: "getSelectedVersionData (x # xs) None = Inr (Some x)"
    by (simp add: getSelectedVersionData_def js_index_def)
  have found: "getSelectedVersionData (x # xs) (Some v) = Inr (Some ((x # xs) ! i))"
    if "i < length (x # xs)" "version ((x # xs) ! i) = v"
      "\<forall>j < i. version ((x # xs) ! j) \<noteq> v" for i
  proof -
    have "find (\<lambda>y. version y = v) (x # xs) = Some ((x # xs) ! i)"
      unfolding find_Some_iff using that by blast
    then show ?thesis
      by (simp add: getSelectedVersionData_def del: find.simps)
  qed
  have fallback: "getSelectedVersionData (x # xs) (Some v) = Inr (Some x)"
    if "\<forall>y \<in> set (x # xs). version y \<noteq> v"
  proof -
    have "find (\<lambda>y. version y = v) (x # xs) = None"
      unfolding find_None_iff using that by blast
    then show ?thesis
      by (simp add: getSelectedVersionData_def js_index_def del: find.simps)
  qed
  from empty latest found fallback show ?thesis by blast
qed

theorem getSelectedVersionData_resolves_witness:
  "getSelectedVersionData example_output (Some 2) = Inr (Some (example_output ! 1)) \<and>
   getSelectedVersionData example_output (Some 99) = Inr (Some (example_output ! 0))"
proof -
  obtain x xs where eq: "example_output = x # xs"
    by (simp add: example_output_def)
  have at2: "version (example_output ! 1) = 2 \<and> (\<forall>j < 1. version (example_output ! j) \<noteq> 2)"
    by (simp add: example_output_def)
  have no99: "\<forall>y \<in> set example_output. version y \<noteq> 99"
    by (simp add: example_output_def)
  have len: "1 < length example_output"
    by (simp add: example_output_def)
  from getSelectedVersionData_resolves [of None x xs 2] at2 len
  have "getSelectedVersionData example_output (Some 2) = Inr (Some (example_output ! 1))"
    unfolding eq by blast
  moreover from getSelectedVersionData_resolves [of None x xs 99] no99
  have "getSelectedVersionData example_output (Some 99) = Inr (Some (example_output ! 0))"
    unfolding eq by simp
  ultimately show ?thesis by simp
qed

section \<open>Test cases of a version\<close>

text \<open>
  C6. \<open>getVersionTestCases\<close> returns nothing when no version data is given; otherwise it
  returns the test cases whose id is among the version's \<open>testCaseIds\<close>, in the order of
  the test cases. Ids of the version that no test case carries change nothing.
\<close>

theorem getVersionTestCases_projects:
  "getVersionTestCases cases None = Inr [] \<and>
   getVersionTestCases cases (Some vd) =
     Inr (filter (\<lambda>tc. tc_id tc \<in> set (testCaseIds vd)) cases) \<and>
   ((\<forall>i \<in> set dangling. i \<notin> tc_id ` set cases) \<longrightarrow>
      getVersionTestCases cases (Some (vd\<lparr>testCaseIds := testCaseIds vd @ dangling\<rparr>)) =
      getVersionTestCases cases (Some vd))"
proof -
  have "filter (\<lambda>tc. tc_id tc \<in> set (testCaseIds vd) \<or> tc_id tc \<in> set dangling) cases =
        filter (\<lambda>tc. tc_id tc \<in> set (testCaseIds vd)) cases"
    if "\<forall>i \<in> set dangling. i \<notin> tc_id ` set cases"
    using that by (intro filter_cong) auto
  then show ?thesis
    by (simp add: getVersionTestCases_def)
qed

theorem getVersionTestCases_projects_witness:
  "getVersionTestCases example_cases (Some (example_output ! 1)) =
     Inr [example_cases ! 0, example_cases ! 2] \<and>
   getVersionTestCases example_cases
     (Some ((example_output ! 1)\<lparr>testCaseIds := testCaseIds (example_output ! 1) @ [''zz'']\<rparr>)) =
     Inr [example_cases ! 0, example_cases ! 2]"
proof -
  have none: "\<forall>i \<in> set [''zz'']. i \<notin> tc_id ` set example_cases"
    by (simp add: example_cases_def)
  have "getVersionTestCases example_cases (Some (example_output ! 1)) =
          Inr [example_cases ! 0, example_cases ! 2]"
    using getVersionTestCases_projects [of example_cases "example_output ! 1" "[]"]
    by (simp add: example_cases_def example_output_def)
  moreover from getVersionTestCases_projects [of example_cases "example_output ! 1" "[''zz'']"] none
  have "getVersionTestCases example_cases
     (Some ((example_output ! 1)\<lparr>testCaseIds := testCaseIds (example_output ! 1) @ [''zz'']\<rparr>)) =
     getVersionTestCases example_cases (Some (example_output ! 1))"
    by blast
  ultimately show ?thesis by simp
qed

section \<open>Version data\<close>

subsection \<open>What the function returns\<close>

lemma versionEntry_Inr:
  "versionEntry b arr i v =
     Inr \<lparr>version = version v, createdAt = createdAt v, testCaseIds = testCaseIds v,
          isLatest = (i = 0),
          added = (if i + 1 < length arr
                   then filter (\<lambda>x. x \<notin> set (testCaseIds (arr ! (i + 1)))) (testCaseIds v)
                   else []),
          removed = (if i + 1 < length arr
                     then filter (\<lambda>x. x \<notin> set (testCaseIds v)) (testCaseIds (arr ! (i + 1)))
                     else []),
          runCount = (case runs b of
                        None \<Rightarrow> 0
                      | Some rs \<Rightarrow>
                          length (filter (\<lambda>r. or_default (benchmarkVersion r) 1 = version v) rs))\<rparr>"
  by (simp add: versionEntry_def js_index_def Let_def)

lemma computeVersionData_missing:
  "optional_chain benchmark versions = None \<Longrightarrow> computeVersionData benchmark = Inr []"
  by (simp add: computeVersionData_def)

lemma computeVersionData_present:
  assumes "versions b = Some vs"
  obtains vds where "computeVersionData (Some b) = Inr vds" and "length vds = length vs"
    and "\<And>j. j < length vs \<Longrightarrow>
           versionEntry b (newestFirst vs) j (newestFirst vs ! j) = Inr (vds ! j)"
proof (cases "vs = []")
  case True
  with assms have "computeVersionData (Some b) = Inr []"
    by (simp add: computeVersionData_def optional_chain_def)
  with True that show ?thesis by simp
next
  case False
  let ?arr = "newestFirst vs"
  obtain vds where vds: "map_index (versionEntry b ?arr) 0 ?arr = Inr vds"
    using map_index_total [of ?arr "versionEntry b ?arr" 0] by (auto simp: versionEntry_Inr)
  have "computeVersionData (Some b) = Inr vds"
    using assms False vds by (simp add: computeVersionData_def optional_chain_def Let_def)
  moreover have "length vds = length vs"
    using map_index_length [OF vds] by simp
  moreover have "versionEntry b ?arr j (?arr ! j) = Inr (vds ! j)" if "j < length vs" for j
    using map_index_nth [OF vds, of j] that by simp
  ultimately show ?thesis using that by blast
qed

text \<open>
  Every call returns, and the result is either empty, when the benchmark or its versions
  are missing, or has one entry for each version, in the order of the sorted copy.
\<close>

lemma computeVersionData_cases:
  obtains (missing) "optional_chain benchmark versions = None"
      and "computeVersionData benchmark = Inr []"
  | (present) b vs vds where "benchmark = Some b" and "versions b = Some vs"
      and "computeVersionData benchmark = Inr vds" and "length vds = length vs"
      and "\<And>j. j < length vs \<Longrightarrow>
             versionEntry b (newestFirst vs) j (newestFirst vs ! j) = Inr (vds ! j)"
proof (cases "optional_chain benchmark versions")
  case None
  with computeVersionData_missing missing show ?thesis by blast
next
  case (Some vs)
  then obtain b where b: "benchmark = Some b" "versions b = Some vs"
    by (auto simp: optional_chain_def split: option.splits)
  from computeVersionData_present [OF b(2)] b present show ?thesis by metis
qed

subsection \<open>Added and removed test cases\<close>

text \<open>
  C1. In the result of \<open>computeVersionData\<close>, for every entry and the entry after it (the
  next older version), \<open>added\<close> is the ids of the entry that the older one lacks, in the
  entry's order, and \<open>removed\<close> is the ids of the older one that the entry lacks, in the
  older one's order. The last entry, which has no older version, has both empty.
\<close>

theorem computeVersionData_diffs:
  "\<exists>vds. computeVersionData benchmark = Inr vds \<and>
     (\<forall>i. i + 1 < length vds \<longrightarrow>
        added (vds ! i) =
          filter (\<lambda>x. x \<notin> set (testCaseIds (vds ! (i + 1)))) (testCaseIds (vds ! i)) \<and>
        removed (vds ! i) =
          filter (\<lambda>x. x \<notin> set (testCaseIds (vds ! i))) (testCaseIds (vds ! (i + 1)))) \<and>
     (vds \<noteq> [] \<longrightarrow> added (last vds) = [] \<and> removed (last vds) = [])"
proof (cases benchmark rule: computeVersionData_cases)
  case missing
  then show ?thesis by simp
next
  case (present b vs vds)
  let ?arr = "newestFirst vs"
  have entry: "versionEntry b ?arr j (?arr ! j) = Inr (vds ! j)" if "j < length vs" for j
    using present(5) that .
  have ids: "testCaseIds (vds ! j) = testCaseIds (?arr ! j)" if "j < length vs" for j
    using entry [OF that, symmetric] by (simp add: versionEntry_Inr)
  have pair:
    "added (vds ! i) =
       filter (\<lambda>x. x \<notin> set (testCaseIds (vds ! (i + 1)))) (testCaseIds (vds ! i)) \<and>
     removed (vds ! i) =
       filter (\<lambda>x. x \<notin> set (testCaseIds (vds ! i))) (testCaseIds (vds ! (i + 1)))"
    if "i + 1 < length vds" for i
  proof -
    from that present(4) have i: "i < length vs" and si: "i + 1 < length vs" by simp_all
    from entry [OF i, symmetric] si have
      "added (vds ! i) =
         filter (\<lambda>x. x \<notin> set (testCaseIds (?arr ! (i + 1)))) (testCaseIds (?arr ! i))"
      "removed (vds ! i) =
         filter (\<lambda>x. x \<notin> set (testCaseIds (?arr ! i))) (testCaseIds (?arr ! (i + 1)))"
      by (simp_all add: versionEntry_Inr)
    with ids [OF i] ids [OF si] show ?thesis by simp
  qed
  have oldest: "added (last vds) = [] \<and> removed (last vds) = []" if "vds \<noteq> []"
  proof -
    from that present(4) have pos: "0 < length vs" by (cases vds) auto
    then have n: "length vs - 1 < length vs" by simp
    from that have "last vds = vds ! (length vs - 1)"
      by (simp add: last_conv_nth present(4))
    with entry [OF n, symmetric] pos show ?thesis by (simp add: versionEntry_Inr)
  qed
  from present(3) pair oldest show ?thesis by blast
qed

theorem computeVersionData_diffs_witness:
  "computeVersionData (Some example_benchmark) = Inr example_output \<and>
   added (example_output ! 0) = [''c''] \<and> removed (example_output ! 0) = [] \<and>
   added (example_output ! 1) = [''b''] \<and> removed (example_output ! 1) = [] \<and>
   added (last example_output) = [] \<and> removed (last example_output) = []"
proof -
  have run: "computeVersionData (Some example_benchmark) = Inr example_output"
    by (simp add: computeVersionData_def optional_chain_def js_sort_def versionEntry_def
        js_index_def example_benchmark_def example_versions_def example_runs_def
        example_output_def)
  from computeVersionData_diffs [of "Some example_benchmark"] run
  have "(\<forall>i. i + 1 < length example_output \<longrightarrow>
          added (example_output ! i) =
            filter (\<lambda>x. x \<notin> set (testCaseIds (example_output ! (i + 1))))
              (testCaseIds (example_output ! i)) \<and>
          removed (example_output ! i) =
            filter (\<lambda>x. x \<notin> set (testCaseIds (example_output ! i)))
              (testCaseIds (example_output ! (i + 1)))) \<and>
        (example_output \<noteq> [] \<longrightarrow>
          added (last example_output) = [] \<and> removed (last example_output) = [])"
    by auto
  then have "added (example_output ! 0) =
            filter (\<lambda>x. x \<notin> set (testCaseIds (example_output ! (0 + 1))))
              (testCaseIds (example_output ! 0))"
    and "removed (example_output ! 0) =
            filter (\<lambda>x. x \<notin> set (testCaseIds (example_output ! 0)))
              (testCaseIds (example_output ! (0 + 1)))"
    and "added (example_output ! 1) =
            filter (\<lambda>x. x \<notin> set (testCaseIds (example_output ! (1 + 1))))
              (testCaseIds (example_output ! 1))"
    and "removed (example_output ! 1) =
            filter (\<lambda>x. x \<notin> set (testCaseIds (example_output ! 1)))
              (testCaseIds (example_output ! (1 + 1)))"
    and "added (last example_output) = [] \<and> removed (last example_output) = []"
    by (simp_all add: example_output_def)
  with run show ?thesis by (simp add: example_output_def)
qed

subsection \<open>Order and the latest version\<close>

lemma newestFirst_strict:
  assumes "distinct (map version vs)"
  shows "sorted_wrt (\<lambda>a b. version b < version a) (newestFirst vs)"
proof -
  let ?key = "\<lambda>v :: BenchmarkVersion. - version v"
  have "mset (map ?key (newestFirst vs)) = mset (map ?key vs)"
    by simp
  moreover from assms have "distinct (map ?key vs)"
    by (simp add: distinct_map inj_on_def)
  ultimately have "distinct (map ?key (newestFirst vs))"
    by (metis mset_eq_imp_distinct_iff)
  moreover have "sorted (map ?key (newestFirst vs))"
    by (simp add: js_sort_key)
  ultimately have "sorted_wrt (<) (map ?key (newestFirst vs))"
    by (simp add: strict_sorted_iff)
  then show ?thesis
    by (simp add: sorted_wrt_map)
qed

text \<open>
  C2. When the version numbers of a benchmark are pairwise distinct, \<open>computeVersionData\<close>
  returns its entries in strictly descending order of version number, and in a non-empty
  result exactly one entry has \<open>isLatest\<close>: the one with the greatest version number.
  (That the numbers are at least 1 is not needed.)
\<close>

theorem computeVersionData_sorted_latest:
  assumes "\<forall>vs. optional_chain benchmark versions = Some vs \<longrightarrow> distinct (map version vs)"
  shows "\<exists>vds. computeVersionData benchmark = Inr vds \<and>
     sorted_wrt (\<lambda>a b. version b < version a) vds \<and>
     (vds \<noteq> [] \<longrightarrow>
        length (filter isLatest vds) = 1 \<and>
        (\<forall>v \<in> set vds. isLatest v \<longleftrightarrow> version v = Max (version ` set vds)))"
proof (cases benchmark rule: computeVersionData_cases)
  case missing
  then show ?thesis by simp
next
  case (present b vs vds)
  let ?arr = "newestFirst vs"
  have ver: "version (vds ! j) = version (?arr ! j)" if "j < length vs" for j
    using present(5) [OF that, symmetric] by (simp add: versionEntry_Inr)
  have lat: "isLatest (vds ! j) \<longleftrightarrow> j = 0" if "j < length vs" for j
    using present(5) [OF that, symmetric] by (simp add: versionEntry_Inr)
  from present(1,2) assms have "distinct (map version vs)"
    by (simp add: optional_chain_def)
  then have "sorted_wrt (\<lambda>a b. version b < version a) ?arr"
    by (rule newestFirst_strict)
  then have "sorted_wrt (\<lambda>m n. n < m) (map version ?arr)"
    by (simp add: sorted_wrt_map)
  moreover have "map version vds = map version ?arr"
    using present(4) ver by (intro nth_equalityI) simp_all
  ultimately have "sorted_wrt (\<lambda>m n. n < m) (map version vds)"
    by simp
  then have sorted: "sorted_wrt (\<lambda>a b. version b < version a) vds"
    by (simp add: sorted_wrt_map)
  have latest: "length (filter isLatest vds) = 1 \<and>
      (\<forall>v \<in> set vds. isLatest v \<longleftrightarrow> version v = Max (version ` set vds))"
    if "vds \<noteq> []"
  proof -
    from that obtain x xs where vds: "vds = x # xs" by (cases vds) auto
    with present(4) have "0 < length vs" by (cases vs) simp_all
    from lat [OF this] vds have x: "isLatest x" by simp
    have rest: "\<not> isLatest y" if "y \<in> set xs" for y
    proof -
      from that obtain k where k: "k < length xs" "y = xs ! k"
        by (auto simp: in_set_conv_nth)
      with vds present(4) have "Suc k < length vs" by simp
      from lat [OF this] vds k show ?thesis by simp
    qed
    from sorted vds have below: "\<forall>y \<in> set xs. version y < version x"
      by simp
    have "Max (insert (version x) (version ` set xs)) = version x"
    proof (rule Max_eqI)
      show "finite (insert (version x) (version ` set xs))" by simp
      show "version x \<in> insert (version x) (version ` set xs)" by simp
      fix n assume "n \<in> insert (version x) (version ` set xs)"
      with below show "n \<le> version x" by force
    qed
    then have mx: "Max (version ` set vds) = version x"
      by (simp add: vds)
    from rest have "filter isLatest xs = []"
      by (simp add: filter_empty_conv)
    with x have one: "length (filter isLatest vds) = 1"
      by (simp add: vds)
    have "isLatest v \<longleftrightarrow> version v = version x" if "v \<in> set vds" for v
    proof (cases "v \<in> set xs")
      case True
      with rest [of v] below show ?thesis by force
    next
      case False
      with that vds have "v = x" by simp
      with x show ?thesis by simp
    qed
    with one mx show ?thesis by simp
  qed
  from present(3) sorted latest show ?thesis by blast
qed

theorem computeVersionData_sorted_latest_witness:
  "distinct (map version example_versions) \<and>
   computeVersionData (Some example_benchmark) = Inr example_output \<and>
   sorted_wrt (\<lambda>a b. version b < version a) example_output \<and>
   length (filter isLatest example_output) = 1 \<and>
   isLatest (example_output ! 0) \<and>
   version (example_output ! 0) = Max (version ` set example_output)"
proof -
  have d: "distinct (map version example_versions)"
    by (simp add: example_versions_def)
  then have hyp: "\<forall>vs. optional_chain (Some example_benchmark) versions = Some vs \<longrightarrow>
      distinct (map version vs)"
    by (simp add: optional_chain_def example_benchmark_def)
  have run: "computeVersionData (Some example_benchmark) = Inr example_output"
    by (simp add: computeVersionData_def optional_chain_def js_sort_def versionEntry_def
        js_index_def example_benchmark_def example_versions_def example_runs_def
        example_output_def)
  have ne: "example_output \<noteq> []" and first: "example_output ! 0 \<in> set example_output"
    and l: "isLatest (example_output ! 0)"
    by (simp_all add: example_output_def)
  from computeVersionData_sorted_latest [OF hyp] run ne
  have "sorted_wrt (\<lambda>a b. version b < version a) example_output"
    and "length (filter isLatest example_output) = 1"
    and "\<forall>v \<in> set example_output.
           isLatest v \<longleftrightarrow> version v = Max (version ` set example_output)"
    by auto
  with d run first l show ?thesis by blast
qed

subsection \<open>Run counts\<close>

text \<open>
  C5 as stated fails: a run whose \<open>benchmarkVersion\<close> is present and \<open>0\<close> is counted for
  version 1, while its effective version in the specification's words is \<open>0\<close>.
\<close>

theorem runCount_zero_version_counterexample:
  "computeVersionData (Some zero_benchmark) =
     Inr [\<lparr>version = 1, createdAt = ''T'', testCaseIds = [''a''], isLatest = True,
           added = [], removed = [], runCount = 1\<rparr>] \<and>
   spec_runCount (runs zero_benchmark) 1 = 0"
  by (simp add: computeVersionData_def optional_chain_def js_sort_def versionEntry_def
      js_index_def zero_benchmark_def zero_run_def spec_runCount_def
      spec_effectiveVersion_def)

text \<open>
  C5, amended. Every entry's \<open>runCount\<close> is the number of the benchmark's runs whose
  effective version is the entry's version number, where the effective version of a run
  is its \<open>benchmarkVersion\<close> when that is present and truthy (neither \<open>0\<close> nor \<open>NaN\<close>)
  and \<open>1\<close> otherwise; without runs the count is \<open>0\<close>.
\<close>

theorem computeVersionData_runCount:
  "\<exists>vds. computeVersionData benchmark = Inr vds \<and>
     (\<forall>v \<in> set vds.
        runCount v =
          (case optional_chain benchmark runs of
             None \<Rightarrow> 0
           | Some rs \<Rightarrow>
               length (filter (\<lambda>r. or_default (benchmarkVersion r) 1 = version v) rs)))"
proof (cases benchmark rule: computeVersionData_cases)
  case missing
  then show ?thesis by simp
next
  case (present b vs vds)
  have "runCount v =
      (case runs b of
         None \<Rightarrow> 0
       | Some rs \<Rightarrow> length (filter (\<lambda>r. or_default (benchmarkVersion r) 1 = version v) rs))"
    if "v \<in> set vds" for v
  proof -
    from that present(4) obtain j where j: "j < length vs" "v = vds ! j"
      by (auto simp: in_set_conv_nth)
    from present(5) [OF j(1), symmetric] have
      "version (vds ! j) = version (newestFirst vs ! j)"
      "runCount (vds ! j) =
         (case runs b of
            None \<Rightarrow> 0
          | Some rs \<Rightarrow>
              length (filter (\<lambda>r. or_default (benchmarkVersion r) 1 =
                version (newestFirst vs ! j)) rs))"
      by (simp_all add: versionEntry_Inr)
    with j(2) show ?thesis by (simp split: option.split)
  qed
  with present(1,3) show ?thesis
    by (simp add: optional_chain_def)
qed

theorem computeVersionData_runCount_witness:
  "computeVersionData (Some example_benchmark) = Inr example_output \<and>
   example_output ! 2 \<in> set example_output \<and>
   runCount (example_output ! 2) =
     length (filter (\<lambda>r. or_default (benchmarkVersion r) 1 = 1) example_runs) \<and>
   runCount (example_output ! 2) = 2"
proof -
  have run: "computeVersionData (Some example_benchmark) = Inr example_output"
    by (simp add: computeVersionData_def optional_chain_def js_sort_def versionEntry_def
        js_index_def example_benchmark_def example_versions_def example_runs_def
        example_output_def)
  have mem: "example_output ! 2 \<in> set example_output"
    and ver: "version (example_output ! 2) = 1"
    and cnt: "runCount (example_output ! 2) = 2"
    by (simp_all add: example_output_def)
  have rs: "optional_chain (Some example_benchmark) runs = Some example_runs"
    by (simp add: optional_chain_def example_benchmark_def)
  from computeVersionData_runCount [of "Some example_benchmark"] run mem
  have "runCount (example_output ! 2) =
     (case optional_chain (Some example_benchmark) runs of
        None \<Rightarrow> 0
      | Some rs \<Rightarrow>
          length (filter (\<lambda>r. or_default (benchmarkVersion r) 1 = version (example_output ! 2)) rs))"
    by auto
  with rs ver have "runCount (example_output ! 2) =
     length (filter (\<lambda>r. or_default (benchmarkVersion r) 1 = 1) example_runs)"
    by simp
  with run mem cnt show ?thesis by simp
qed

section \<open>Runs of a version\<close>

lemma filterRunsByVersion_All:
  "filterRunsByVersion getTime (Some rs) AllVersions =
     Inr (js_sort_num (\<lambda>a b. js_minus (getTime (run_createdAt b)) (getTime (run_createdAt a))) rs)"
  by (simp add: filterRunsByVersion_def)

lemma filterRunsByVersion_VersionNumber:
  "filterRunsByVersion getTime (Some rs) (VersionNumber n) =
     Inr (filter (\<lambda>run. or_default (benchmarkVersion run) 1 = n)
       (js_sort_num (\<lambda>a b. js_minus (getTime (run_createdAt b)) (getTime (run_createdAt a))) rs))"
  by (simp add: filterRunsByVersion_def)

text \<open>
  C4 as stated fails, in two ways. Asked for version 1, the function returns a run whose
  \<open>benchmarkVersion\<close> is present and \<open>0\<close>, and whose effective version in the
  specification's words is therefore \<open>0\<close>. And where a \<open>createdAt\<close> between two runs does
  not parse, the comparator gives \<open>NaN\<close> against it on both sides and the result keeps the
  older run before the newer one.
\<close>

theorem filterRunsByVersion_zero_version_counterexample:
  "filterRunsByVersion example_getTime (Some [zero_run]) (VersionNumber 1) = Inr [zero_run] \<and>
   spec_effectiveVersion zero_run \<noteq> Num 1 \<and>
   filterRunsByVersion example_getTime (Some undated_runs) AllVersions = Inr undated_runs \<and>
   example_getTime (run_createdAt (undated_runs ! 0)) = Num 1767229200000 \<and>
   example_getTime (run_createdAt (undated_runs ! 1)) = NaN \<and>
   example_getTime (run_createdAt (undated_runs ! 2)) = Num 1767402000000"
  by (simp add: filterRunsByVersion_def js_sort_num_def js_sort_def js_minus_def sort_order_def
      zero_run_def undated_runs_def example_getTime_def spec_effectiveVersion_def)

text \<open>
  C4, amended. Without runs \<open>filterRunsByVersion\<close> returns nothing. With the filter
  \<open>AllVersions\<close> it returns all the runs. With a version number it returns exactly the
  runs whose effective version is that number, where the effective version of a run is its
  \<open>benchmarkVersion\<close> when that is present and truthy (neither \<open>0\<close> nor \<open>NaN\<close>) and \<open>1\<close>
  otherwise. In both cases the result is sorted newest first by \<open>createdAt\<close> whenever the
  \<open>createdAt\<close> of every run parses to a time.
\<close>

theorem filterRunsByVersion_result:
  "filterRunsByVersion getTime None f = Inr [] \<and>
   (\<exists>out. filterRunsByVersion getTime (Some rs) AllVersions = Inr out \<and>
      mset out = mset rs \<and>
      ((\<forall>r \<in> set rs. getTime (run_createdAt r) \<noteq> NaN) \<longrightarrow>
         sorted_wrt (\<lambda>a b. \<exists>s t. getTime (run_createdAt a) = Num s \<and>
           getTime (run_createdAt b) = Num t \<and> t \<le> s) out)) \<and>
   (\<exists>out. filterRunsByVersion getTime (Some rs) (VersionNumber n) = Inr out \<and>
      mset out = mset (filter (\<lambda>r. or_default (benchmarkVersion r) 1 = n) rs) \<and>
      ((\<forall>r \<in> set rs. getTime (run_createdAt r) \<noteq> NaN) \<longrightarrow>
         sorted_wrt (\<lambda>a b. \<exists>s t. getTime (run_createdAt a) = Num s \<and>
           getTime (run_createdAt b) = Num t \<and> t \<le> s) out))"
proof -
  let ?key = "\<lambda>r. getTime (run_createdAt r)"
  let ?sorted = "js_sort_num (\<lambda>a b. js_minus (?key b) (?key a)) rs"
  let ?desc = "\<lambda>a b. \<exists>s t. ?key a = Num s \<and> ?key b = Num t \<and> t \<le> s"
  have none: "filterRunsByVersion getTime None f = Inr []"
    by (simp add: filterRunsByVersion_def)
  have all: "mset ?sorted = mset rs"
    by simp
  have some: "mset (filter (\<lambda>r. or_default (benchmarkVersion r) 1 = n) ?sorted) =
      mset (filter (\<lambda>r. or_default (benchmarkVersion r) 1 = n) rs)"
    by (simp add: mset_filter)
  have desc: "sorted_wrt ?desc ?sorted" if "\<forall>r \<in> set rs. ?key r \<noteq> NaN"
    using that by (rule js_sort_num_descending)
  have desc': "sorted_wrt ?desc (filter (\<lambda>r. or_default (benchmarkVersion r) 1 = n) ?sorted)"
    if "\<forall>r \<in> set rs. ?key r \<noteq> NaN"
    using desc [OF that] by (rule sorted_wrt_filter)
  from none all some desc desc' show ?thesis
    unfolding filterRunsByVersion_All filterRunsByVersion_VersionNumber by blast
qed

theorem filterRunsByVersion_result_witness:
  "list_all (\<lambda>r. example_getTime (run_createdAt r) \<noteq> NaN) example_runs \<and>
   filterRunsByVersion example_getTime (Some example_runs) (VersionNumber 1) =
     Inr [example_runs ! 2, example_runs ! 0] \<and>
   mset [example_runs ! 2, example_runs ! 0] =
     mset (filter (\<lambda>r. or_default (benchmarkVersion r) 1 = 1) example_runs) \<and>
   sorted_wrt (\<lambda>a b. \<exists>s t. example_getTime (run_createdAt a) = Num s \<and>
     example_getTime (run_createdAt b) = Num t \<and> t \<le> s) [example_runs ! 2, example_runs ! 0]"
proof -
  have valid: "\<forall>r \<in> set example_runs. example_getTime (run_createdAt r) \<noteq> NaN"
    by (simp add: example_runs_def example_getTime_def)
  have run: "filterRunsByVersion example_getTime (Some example_runs) (VersionNumber 1) =
     Inr [example_runs ! 2, example_runs ! 0]"
    by (simp add: filterRunsByVersion_def js_sort_num_def js_sort_def js_minus_def
        sort_order_def example_runs_def example_getTime_def)
  from filterRunsByVersion_result [of example_getTime AllVersions example_runs 1] run valid
  have "mset [example_runs ! 2, example_runs ! 0] =
     mset (filter (\<lambda>r. or_default (benchmarkVersion r) 1 = 1) example_runs)"
    and "sorted_wrt (\<lambda>a b. \<exists>s t. example_getTime (run_createdAt a) = Num s \<and>
     example_getTime (run_createdAt b) = Num t \<and> t \<le> s) [example_runs ! 2, example_runs ! 0]"
    by auto
  with valid run show ?thesis by (simp add: list_all_iff)
qed

section \<open>The legacy default\<close>

lemma length_filter_js_sort_num:
  "length (filter P (js_sort_num cmp xs)) = length (filter P xs)"
proof -
  have "mset (filter P (js_sort_num cmp xs)) = mset (filter P xs)"
    by (simp add: mset_filter)
  then show ?thesis by (metis size_mset)
qed

text \<open>
  C10. A run whose \<open>benchmarkVersion\<close> is present but falsy (\<open>0\<close> or \<open>NaN\<close>) has the
  effective version 1 in both places. In \<open>filterRunsByVersion\<close> it is returned for the
  version number 1 and for no other. \<open>computeVersionData\<close> returns one entry for each
  version of the benchmark, and the run adds one to the \<open>runCount\<close> of the entries of
  version 1 and nothing to any other. Both places apply the same rule to every run: the
  \<open>runCount\<close> of an entry is the number of runs that \<open>filterRunsByVersion\<close> returns for
  the entry's version number.
\<close>

theorem falsy_benchmarkVersion_counts_as_1:
  assumes "benchmarkVersion r = Some (Num 0) \<or> benchmarkVersion r = Some NaN"
  shows
    "(\<exists>out. filterRunsByVersion getTime (Some rs) (VersionNumber n) = Inr out \<and>
        (r \<in> set out \<longleftrightarrow> r \<in> set rs \<and> n = 1)) \<and>
     (\<exists>vds vds'.
        computeVersionData (Some (b\<lparr>runs := Some (rs1 @ r # rs2)\<rparr>)) = Inr vds \<and>
        computeVersionData (Some (b\<lparr>runs := Some (rs1 @ rs2)\<rparr>)) = Inr vds' \<and>
        map version vds = map version (newestFirst (versionsOf b)) \<and>
        map version vds' = map version (newestFirst (versionsOf b)) \<and>
        (\<forall>j < length (versionsOf b).
           runCount (vds ! j) =
             runCount (vds' ! j) + (if version (vds ! j) = 1 then 1 else 0))) \<and>
     (\<exists>vds. computeVersionData (Some (b\<lparr>runs := Some rs\<rparr>)) = Inr vds \<and>
        map version vds = map version (newestFirst (versionsOf b)) \<and>
        (\<forall>v \<in> set vds.
           \<exists>out. filterRunsByVersion getTime (Some rs) (VersionNumber (version v)) = Inr out \<and>
             runCount v = length out))"
proof -
  from assms have eff: "or_default (benchmarkVersion r) 1 = 1"
    by auto
  have filtered: "\<exists>out. filterRunsByVersion getTime (Some rs) (VersionNumber n) = Inr out \<and>
        (r \<in> set out \<longleftrightarrow> r \<in> set rs \<and> n = 1)"
    using eff by (auto simp: filterRunsByVersion_VersionNumber)
  have counted: "\<exists>vds vds'.
        computeVersionData (Some (b\<lparr>runs := Some (rs1 @ r # rs2)\<rparr>)) = Inr vds \<and>
        computeVersionData (Some (b\<lparr>runs := Some (rs1 @ rs2)\<rparr>)) = Inr vds' \<and>
        map version vds = map version (newestFirst (versionsOf b)) \<and>
        map version vds' = map version (newestFirst (versionsOf b)) \<and>
        (\<forall>j < length (versionsOf b).
           runCount (vds ! j) =
             runCount (vds' ! j) + (if version (vds ! j) = 1 then 1 else 0))"
  proof (cases "versions b")
    case None
    then have "computeVersionData (Some (b\<lparr>runs := Some (rs1 @ r # rs2)\<rparr>)) = Inr []"
      and "computeVersionData (Some (b\<lparr>runs := Some (rs1 @ rs2)\<rparr>)) = Inr []"
      by (simp_all add: computeVersionData_missing optional_chain_def)
    with None show ?thesis by simp
  next
    case (Some vs)
    let ?b = "b\<lparr>runs := Some (rs1 @ r # rs2)\<rparr>" and ?b' = "b\<lparr>runs := Some (rs1 @ rs2)\<rparr>"
    from Some have "versions ?b = Some vs" and "versions ?b' = Some vs"
      by simp_all
    from computeVersionData_present [OF this(1)] computeVersionData_present [OF this(2)]
    obtain vds vds' where
      run: "computeVersionData (Some ?b) = Inr vds" and len: "length vds = length vs" and
      entry: "\<And>j. j < length vs \<Longrightarrow>
        versionEntry ?b (newestFirst vs) j (newestFirst vs ! j) = Inr (vds ! j)" and
      run': "computeVersionData (Some ?b') = Inr vds'" and len': "length vds' = length vs" and
      entry': "\<And>j. j < length vs \<Longrightarrow>
        versionEntry ?b' (newestFirst vs) j (newestFirst vs ! j) = Inr (vds' ! j)"
      by metis
    have ver: "version (vds ! j) = version (newestFirst vs ! j)"
      and ver': "version (vds' ! j) = version (newestFirst vs ! j)"
      and cnt: "runCount (vds ! j) =
        runCount (vds' ! j) + (if version (vds ! j) = 1 then 1 else 0)"
      if "j < length vs" for j
      using entry [OF that, symmetric] entry' [OF that, symmetric] eff
      by (auto simp: versionEntry_Inr)
    have "map version vds = map version (newestFirst vs)"
      using len ver by (intro nth_equalityI) simp_all
    moreover have "map version vds' = map version (newestFirst vs)"
      using len' ver' by (intro nth_equalityI) simp_all
    ultimately show ?thesis
      using run run' cnt Some by auto
  qed
  have same: "\<exists>vds. computeVersionData (Some (b\<lparr>runs := Some rs\<rparr>)) = Inr vds \<and>
        map version vds = map version (newestFirst (versionsOf b)) \<and>
        (\<forall>v \<in> set vds.
           \<exists>out. filterRunsByVersion getTime (Some rs) (VersionNumber (version v)) = Inr out \<and>
             runCount v = length out)"
  proof (cases "versions b")
    case None
    then have "computeVersionData (Some (b\<lparr>runs := Some rs\<rparr>)) = Inr []"
      by (simp add: computeVersionData_missing optional_chain_def)
    with None show ?thesis by simp
  next
    case (Some vs)
    let ?b = "b\<lparr>runs := Some rs\<rparr>"
    from Some have "versions ?b = Some vs" by simp
    from computeVersionData_present [OF this] obtain vds where
      run: "computeVersionData (Some ?b) = Inr vds" and len: "length vds = length vs" and
      entry: "\<And>j. j < length vs \<Longrightarrow>
        versionEntry ?b (newestFirst vs) j (newestFirst vs ! j) = Inr (vds ! j)"
      by metis
    have ver: "version (vds ! j) = version (newestFirst vs ! j)"
      and cnt: "runCount (vds ! j) =
           length (filter (\<lambda>run. or_default (benchmarkVersion run) 1 =
             version (newestFirst vs ! j)) rs)"
      if "j < length vs" for j
      using entry [OF that, symmetric] by (simp_all add: versionEntry_Inr)
    have "runCount v =
        length (filter (\<lambda>run. or_default (benchmarkVersion run) 1 = version v)
          (js_sort_num
            (\<lambda>a b. js_minus (getTime (run_createdAt b)) (getTime (run_createdAt a))) rs))"
      if "v \<in> set vds" for v
    proof -
      from that len obtain j where j: "j < length vs" "v = vds ! j"
        by (auto simp: in_set_conv_nth)
      with ver [OF j(1)] cnt [OF j(1)] show ?thesis
        by (simp add: length_filter_js_sort_num)
    qed
    moreover have "map version vds = map version (newestFirst vs)"
      using len ver by (intro nth_equalityI) simp_all
    ultimately show ?thesis
      using run Some by (simp add: filterRunsByVersion_VersionNumber)
  qed
  from filtered counted same show ?thesis by blast
qed

theorem falsy_benchmarkVersion_counts_as_1_witness:
  "benchmarkVersion nan_run = Some NaN \<and>
   benchmarkVersion zero_run = Some (Num 0) \<and>
   computeVersionData (Some (example_benchmark\<lparr>runs := Some (nan_run # example_runs)\<rparr>)) =
     Inr nan_output \<and>
   map version nan_output = [3, 2, 1] \<and>
   runCount (nan_output ! 2) = runCount (example_output ! 2) + 1 \<and>
   runCount (nan_output ! 1) = runCount (example_output ! 1) \<and>
   runCount (nan_output ! 0) = runCount (example_output ! 0) \<and>
   filterRunsByVersion example_getTime (Some [zero_run]) (VersionNumber 1) = Inr [zero_run] \<and>
   zero_run \<in> set [zero_run] \<and>
   filterRunsByVersion example_getTime (Some [zero_run]) (VersionNumber 0) = Inr []"
proof -
  have nan: "benchmarkVersion nan_run = Some (Num 0) \<or> benchmarkVersion nan_run = Some NaN"
    and zero: "benchmarkVersion zero_run = Some (Num 0) \<or> benchmarkVersion zero_run = Some NaN"
    by (simp_all add: nan_run_def zero_run_def)
  have vs: "versionsOf example_benchmark = example_versions"
    by (simp add: example_benchmark_def)
  have sorted: "map version (newestFirst example_versions) = [3, 2, 1]"
    and three: "length example_versions = 3"
    by (simp_all add: js_sort_def example_versions_def)
  have with_nan: "example_benchmark\<lparr>runs := Some ([] @ nan_run # example_runs)\<rparr> =
      example_benchmark\<lparr>runs := Some (nan_run # example_runs)\<rparr>"
    and without: "example_benchmark\<lparr>runs := Some ([] @ example_runs)\<rparr> = example_benchmark"
    by (simp_all add: example_benchmark_def)
  have run: "computeVersionData (Some example_benchmark) = Inr example_output"
    by (simp add: computeVersionData_def optional_chain_def js_sort_def versionEntry_def
        js_index_def example_benchmark_def example_versions_def example_runs_def
        example_output_def)
  have run_nan:
    "computeVersionData (Some (example_benchmark\<lparr>runs := Some (nan_run # example_runs)\<rparr>)) =
      Inr nan_output"
    by (simp add: computeVersionData_def optional_chain_def js_sort_def versionEntry_def
        js_index_def example_benchmark_def example_versions_def example_runs_def
        nan_output_def nan_run_def)
  from falsy_benchmarkVersion_counts_as_1 [where r = nan_run and b = example_benchmark
      and ?rs1.0 = "[]" and ?rs2.0 = example_runs and getTime = example_getTime, OF nan]
  have counted: "map version nan_output = [3, 2, 1] \<and>
      (\<forall>j < 3. runCount (nan_output ! j) =
         runCount (example_output ! j) + (if version (nan_output ! j) = 1 then 1 else 0))"
    unfolding with_nan without vs sorted three run run_nan by auto
  then have ver: "map version nan_output = [3, 2, 1]"
    by simp
  then have "version (nan_output ! 0) = 3" "version (nan_output ! 1) = 2"
    "version (nan_output ! 2) = 1"
    by (metis nth_map length_map nth_Cons_0 length_Cons list.size(3) zero_less_Suc,
        simp add: nan_output_def, simp add: nan_output_def)
  with counted have counts: "runCount (nan_output ! 2) = runCount (example_output ! 2) + 1"
    "runCount (nan_output ! 1) = runCount (example_output ! 1)"
    "runCount (nan_output ! 0) = runCount (example_output ! 0)"
    by simp_all
  have one: "filterRunsByVersion example_getTime (Some [zero_run]) (VersionNumber 1) =
      Inr [zero_run]"
    and none: "filterRunsByVersion example_getTime (Some [zero_run]) (VersionNumber 0) = Inr []"
    by (simp_all add: filterRunsByVersion_def js_sort_num_def js_sort_def zero_run_def)
  from falsy_benchmarkVersion_counts_as_1 [where r = zero_run and rs = "[zero_run]"
      and n = 1 and getTime = example_getTime, OF zero] one
  have mem: "zero_run \<in> set [zero_run]"
    by auto
  from run_nan ver counts one none mem show ?thesis
    by (simp add: nan_run_def zero_run_def)
qed

section \<open>No failure\<close>

text \<open>
  C8. None of the four functions throws: each returns a value on every input. A missing
  benchmark, missing or empty versions, an empty version list, missing version data, no
  test cases, missing or empty runs all give the empty result; a selection that matches no
  version gives the first entry; ids that no test case carries and runs without
  \<open>benchmarkVersion\<close> give a result too.
\<close>

theorem functions_never_throw:
  "(\<exists>out. computeVersionData benchmark = Inr out) \<and>
   (\<exists>out. getSelectedVersionData versionData selectedVersion = Inr out) \<and>
   (\<exists>out. getVersionTestCases testCases selectedVersionData = Inr out) \<and>
   (\<exists>out. filterRunsByVersion getTime rs' versionFilter' = Inr out) \<and>
   computeVersionData None = Inr [] \<and>
   computeVersionData (Some (b\<lparr>versions := None\<rparr>)) = Inr [] \<and>
   computeVersionData (Some (b\<lparr>versions := Some []\<rparr>)) = Inr [] \<and>
   getSelectedVersionData [] selectedVersion = Inr None \<and>
   (\<exists>y. getSelectedVersionData (x # xs) selectedVersion = Inr (Some y)) \<and>
   getVersionTestCases testCases None = Inr [] \<and>
   getVersionTestCases [] selectedVersionData = Inr [] \<and>
   filterRunsByVersion getTime None versionFilter' = Inr [] \<and>
   filterRunsByVersion getTime (Some []) versionFilter' = Inr []"
proof -
  have compute: "\<exists>out. computeVersionData benchmark = Inr out"
    by (cases benchmark rule: computeVersionData_cases) auto
  have select: "\<exists>out. getSelectedVersionData versionData selectedVersion = Inr out"
    by (simp add: getSelectedVersionData_def split: option.split)
  have project: "\<exists>out. getVersionTestCases testCases selectedVersionData = Inr out"
    by (simp add: getVersionTestCases_def split: option.split)
  have filter: "\<exists>out. filterRunsByVersion getTime rs' versionFilter' = Inr out"
    by (simp add: filterRunsByVersion_def Let_def split: option.split versionFilter.split)
  have c1: "computeVersionData None = Inr []"
    and c2: "computeVersionData (Some (b\<lparr>versions := None\<rparr>)) = Inr []"
    and c3: "computeVersionData (Some (b\<lparr>versions := Some []\<rparr>)) = Inr []"
    by (simp_all add: computeVersionData_def optional_chain_def)
  have s1: "getSelectedVersionData [] selectedVersion = Inr None"
    by (simp add: getSelectedVersionData_def)
  have s2: "\<exists>y. getSelectedVersionData (x # xs) selectedVersion = Inr (Some y)"
    by (simp add: getSelectedVersionData_def js_index_def split: option.split del: find.simps)
  have p1: "getVersionTestCases testCases None = Inr []"
    and p2: "getVersionTestCases [] selectedVersionData = Inr []"
    by (simp_all add: getVersionTestCases_def split: option.split)
  have f1: "filterRunsByVersion getTime None versionFilter' = Inr []"
    and f2: "filterRunsByVersion getTime (Some []) versionFilter' = Inr []"
    by (simp_all add: filterRunsByVersion_def split: versionFilter.split)
  from compute select project filter c1 c2 c3 s1 s2 p1 p2 f1 f2 show ?thesis
    by blast
qed

section \<open>The inputs are not mutated\<close>

text \<open>Sorting in place does change the array it is called on: the copy matters.\<close>

lemma array_sort_mutates:
  "snd (array_sort (\<lambda>a b. version b - version a) 0 [example_versions]) \<noteq> [example_versions]"
  by (simp add: array_sort_def js_sort_def example_versions_def)

text \<open>Each function on the store, in terms of the function on the values.\<close>

lemma computeVersionData_heap_eq:
  "computeVersionData_heap benchmark h =
     (computeVersionData (map_option (load h) benchmark),
      case optional_chain benchmark versionsRef of
        None \<Rightarrow> h
      | Some a \<Rightarrow>
          if versionArrays h ! a = [] then h
          else h\<lparr>versionArrays := versionArrays h @ [newestFirst (versionArrays h ! a)]\<rparr>)"
proof (cases benchmark)
  case None
  then show ?thesis
    by (simp add: computeVersionData_heap_def computeVersionData_def optional_chain_def)
next
  case (Some b)
  show ?thesis
  proof (cases "versionsRef b")
    case None
    with Some show ?thesis
      by (simp add: computeVersionData_heap_def computeVersionData_def optional_chain_def
          load_def)
  next
    case (Some a)
    with \<open>benchmark = Some b\<close> show ?thesis
      by (simp add: computeVersionData_heap_def computeVersionData_def optional_chain_def
          load_def array_copy_def array_sort_def Let_def)
  qed
qed

lemma filterRunsByVersion_heap_eq:
  "filterRunsByVersion_heap getTime runs' f h =
     (filterRunsByVersion getTime (map_option (\<lambda>a. runArrays h ! a) runs') f,
      case runs' of
        None \<Rightarrow> h
      | Some a \<Rightarrow>
          h\<lparr>runArrays := runArrays h @
            [js_sort_num
               (\<lambda>a b. js_minus (getTime (run_createdAt b)) (getTime (run_createdAt a)))
               (runArrays h ! a)]\<rparr>)"
  by (cases runs')
    (simp_all add: filterRunsByVersion_heap_def filterRunsByVersion_def array_copy_def
      array_sort_def js_sort_num_def Let_def split: versionFilter.split)

text \<open>
  C7. Neither \<open>computeVersionData\<close> nor \<open>filterRunsByVersion\<close> changes an array that
  existed before the call: after the call every such array, the benchmark's versions and
  the runs among them, holds the same elements in the same order at the same address. The
  call only allocates new arrays, and it returns what the function returns on the values.
\<close>

theorem inputs_not_mutated:
  "take (length (versionArrays h)) (versionArrays (snd (computeVersionData_heap benchmark h))) =
     versionArrays h \<and>
   runArrays (snd (computeVersionData_heap benchmark h)) = runArrays h \<and>
   fst (computeVersionData_heap benchmark h) =
     computeVersionData (map_option (load h) benchmark) \<and>
   take (length (runArrays h)) (runArrays (snd (filterRunsByVersion_heap getTime runs' f h))) =
     runArrays h \<and>
   versionArrays (snd (filterRunsByVersion_heap getTime runs' f h)) = versionArrays h \<and>
   fst (filterRunsByVersion_heap getTime runs' f h) =
     filterRunsByVersion getTime (map_option (\<lambda>a. runArrays h ! a) runs') f \<and>
   (\<forall>a < length (versionArrays h).
      versionArrays (snd (computeVersionData_heap benchmark h)) ! a = versionArrays h ! a) \<and>
   (\<forall>a < length (runArrays h).
      runArrays (snd (filterRunsByVersion_heap getTime runs' f h)) ! a = runArrays h ! a)"
  by (simp add: computeVersionData_heap_eq filterRunsByVersion_heap_eq nth_append
      split: option.split)

theorem inputs_not_mutated_witness:
  "versionArrays (snd (computeVersionData_heap (Some \<lparr>versionsRef = Some 0, runsRef = Some 0\<rparr>)
      \<lparr>versionArrays = [example_versions], runArrays = [example_runs]\<rparr>)) ! 0 =
     example_versions \<and>
   runArrays (snd (filterRunsByVersion_heap example_getTime (Some 0) AllVersions
      \<lparr>versionArrays = [example_versions], runArrays = [example_runs]\<rparr>)) ! 0 =
     example_runs \<and>
   fst (computeVersionData_heap (Some \<lparr>versionsRef = Some 0, runsRef = Some 0\<rparr>)
      \<lparr>versionArrays = [example_versions], runArrays = [example_runs]\<rparr>) =
     Inr example_output"
proof -
  let ?h = "\<lparr>versionArrays = [example_versions], runArrays = [example_runs]\<rparr>"
  let ?b = "Some \<lparr>versionsRef = Some 0, runsRef = Some 0\<rparr>"
  have run: "computeVersionData (Some example_benchmark) = Inr example_output"
    by (simp add: computeVersionData_def optional_chain_def js_sort_def versionEntry_def
        js_index_def example_benchmark_def example_versions_def example_runs_def
        example_output_def)
  have ld: "map_option (load ?h) ?b = Some example_benchmark"
    by (simp add: load_def example_benchmark_def)
  have "(0::nat) < length (versionArrays ?h)" and "(0::nat) < length (runArrays ?h)"
    by simp_all
  with inputs_not_mutated [of ?h ?b example_getTime "Some 0" AllVersions]
  have "versionArrays (snd (computeVersionData_heap ?b ?h)) ! 0 = versionArrays ?h ! 0"
    and "runArrays (snd (filterRunsByVersion_heap example_getTime (Some 0) AllVersions ?h)) ! 0 =
      runArrays ?h ! 0"
    and "fst (computeVersionData_heap ?b ?h) = computeVersionData (map_option (load ?h) ?b)"
    by blast+
  with run ld show ?thesis by simp
qed

section \<open>Cancelling a run\<close>

text \<open>What one call does, by how the remote call and the callback settle.\<close>

lemma handleCancelRun_rejected:
  "cancelBenchmarkRun benchmarkId runId = Rejected err \<Longrightarrow>
   handleCancelRun cancelBenchmarkRun onSuccess benchmarkId runId s =
     (Normal, \<lparr>cancellingRunId = None,
        trace = trace s @ [SetCancellingRunId (Some runId),
          CancelBenchmarkRun benchmarkId runId, ConsoleError err, SetCancellingRunId None]\<rparr>)"
  by (simp add: handleCancelRun_def seq_def try_catch_finally_def setCancellingRunId_def
      emit_def await_def)

lemma handleCancelRun_pending:
  "cancelBenchmarkRun benchmarkId runId = Pending \<Longrightarrow>
   handleCancelRun cancelBenchmarkRun onSuccess benchmarkId runId s =
     (Hang, \<lparr>cancellingRunId = Some runId,
        trace = trace s @ [SetCancellingRunId (Some runId),
          CancelBenchmarkRun benchmarkId runId]\<rparr>)"
  by (simp add: handleCancelRun_def seq_def try_catch_finally_def setCancellingRunId_def
      emit_def await_def)

lemma handleCancelRun_fulfilled:
  "cancelBenchmarkRun benchmarkId runId = Fulfilled \<Longrightarrow>
   handleCancelRun cancelBenchmarkRun onSuccess benchmarkId runId s =
     (case onSuccess of
        None \<Rightarrow>
          (Normal, \<lparr>cancellingRunId = None,
             trace = trace s @ [SetCancellingRunId (Some runId),
               CancelBenchmarkRun benchmarkId runId, SetCancellingRunId None]\<rparr>)
      | Some Fulfilled \<Rightarrow>
          (Normal, \<lparr>cancellingRunId = None,
             trace = trace s @ [SetCancellingRunId (Some runId),
               CancelBenchmarkRun benchmarkId runId, OnSuccess, SetCancellingRunId None]\<rparr>)
      | Some (Rejected err) \<Rightarrow>
          (Normal, \<lparr>cancellingRunId = None,
             trace = trace s @ [SetCancellingRunId (Some runId),
               CancelBenchmarkRun benchmarkId runId, OnSuccess, ConsoleError err,
               SetCancellingRunId None]\<rparr>)
      | Some Pending \<Rightarrow>
          (Hang, \<lparr>cancellingRunId = Some runId,
             trace = trace s @ [SetCancellingRunId (Some runId),
               CancelBenchmarkRun benchmarkId runId, OnSuccess]\<rparr>))"
  by (simp add: handleCancelRun_def seq_def try_catch_finally_def setCancellingRunId_def
      emit_def await_def split: option.split settled.split)

text \<open>
  C9. One call of \<open>handleCancelRun\<close>, from any state of the hook and however the remote
  call and the callback settle:
  \<^item> never throws to its caller;
  \<^item> completes whenever the promises it awaits settle, and then no run id is tracked:
    after a fulfilled and after a rejected cancellation alike;
  \<^item> tracks one run id at most: the state holds a single id, every write the call makes
    to it is the run id of the call or the clearing, and while the call waits the tracked
    id is the run id of the call;
  \<^item> calls the callback exactly when a callback was given and the cancellation was
    fulfilled, and then once.
  Where an awaited promise never settles the call does not complete and the id stays
  tracked: the code sets no timeout.
\<close>

theorem handleCancelRun_guarded:
  "(\<forall>err. fst (handleCancelRun cancelBenchmarkRun onSuccess benchmarkId runId s) \<noteq> Throw err) \<and>
   (fst (handleCancelRun cancelBenchmarkRun onSuccess benchmarkId runId s) = Normal \<longleftrightarrow>
      cancelBenchmarkRun benchmarkId runId \<noteq> Pending \<and>
      \<not> (cancelBenchmarkRun benchmarkId runId = Fulfilled \<and> onSuccess = Some Pending)) \<and>
   (fst (handleCancelRun cancelBenchmarkRun onSuccess benchmarkId runId s) = Normal \<longrightarrow>
      cancellingRunId (snd (handleCancelRun cancelBenchmarkRun onSuccess benchmarkId runId s)) =
        None) \<and>
   (fst (handleCancelRun cancelBenchmarkRun onSuccess benchmarkId runId s) = Hang \<longrightarrow>
      (\<forall>r. isCancelling
         (snd (handleCancelRun cancelBenchmarkRun onSuccess benchmarkId runId s)) r \<longleftrightarrow>
           r = runId)) \<and>
   (\<forall>a b. isCancelling t a \<and> isCancelling t b \<longrightarrow> a = b) \<and>
   take (length (trace s))
     (trace (snd (handleCancelRun cancelBenchmarkRun onSuccess benchmarkId runId s))) = trace s \<and>
   (\<forall>v. SetCancellingRunId v \<in> set (drop (length (trace s))
        (trace (snd (handleCancelRun cancelBenchmarkRun onSuccess benchmarkId runId s)))) \<longrightarrow>
      v = Some runId \<or> v = None) \<and>
   count_list (drop (length (trace s))
        (trace (snd (handleCancelRun cancelBenchmarkRun onSuccess benchmarkId runId s))))
      OnSuccess =
     (if cancelBenchmarkRun benchmarkId runId = Fulfilled \<and> onSuccess \<noteq> None then 1 else 0)"
proof (cases "cancelBenchmarkRun benchmarkId runId")
  case Fulfilled
  show ?thesis
  proof (cases onSuccess)
    case None
    with Fulfilled show ?thesis
      by (auto simp: handleCancelRun_fulfilled isCancelling_def)
  next
    case (Some cb)
    with Fulfilled show ?thesis
      by (cases cb) (auto simp: handleCancelRun_fulfilled isCancelling_def)
  qed
next
  case (Rejected err)
  then show ?thesis
    by (auto simp: handleCancelRun_rejected isCancelling_def)
next
  case Pending
  then show ?thesis
    by (auto simp: handleCancelRun_pending isCancelling_def)
qed

theorem handleCancelRun_guarded_witness:
  "handleCancelRun (\<lambda>b r. Rejected ''offline'') (Some Fulfilled) ''bench'' ''run-2''
      \<lparr>cancellingRunId = Some ''run-1'', trace = []\<rparr> =
     (Normal, \<lparr>cancellingRunId = None,
        trace = [SetCancellingRunId (Some ''run-2''), CancelBenchmarkRun ''bench'' ''run-2'',
          ConsoleError ''offline'', SetCancellingRunId None]\<rparr>) \<and>
   cancellingRunId (snd (handleCancelRun (\<lambda>b r. Rejected ''offline'') (Some Fulfilled)
      ''bench'' ''run-2'' \<lparr>cancellingRunId = Some ''run-1'', trace = []\<rparr>)) = None"
proof -
  let ?s = "\<lparr>cancellingRunId = Some ''run-1'', trace = []\<rparr>"
  let ?call = "handleCancelRun (\<lambda>b r. Rejected ''offline'') (Some Fulfilled)
      ''bench'' ''run-2'' ?s"
  have run: "?call =
     (Normal, \<lparr>cancellingRunId = None,
        trace = [SetCancellingRunId (Some ''run-2''), CancelBenchmarkRun ''bench'' ''run-2'',
          ConsoleError ''offline'', SetCancellingRunId None]\<rparr>)"
    by (simp add: handleCancelRun_def seq_def try_catch_finally_def setCancellingRunId_def
        emit_def await_def)
  then have "fst ?call = Normal" by simp
  with handleCancelRun_guarded
    [of "\<lambda>b r. Rejected ''offline''" "Some Fulfilled" "''bench''" "''run-2''" ?s]
  have "cancellingRunId (snd ?call) = None"
    by blast
  with run show ?thesis by simp
qed

end
